theory Spec2Isabelle
  imports Complex_Main
begin

section \<open>Values, errors and Python's list operations\<close>

text \<open>
  The program is Python. A \<open>str\<close> is a sequence of Unicode code points: the text of
  animation frames is modelled as a list of code points (\<open>pystr\<close>), since the sprite is
  drawn with block glyphs outside ASCII. Menu labels, animation names and dictionary
  keys are ASCII in the source and are modelled as HOL strings.
\<close>

type_synonym pychar = nat
type_synonym pystr = "pychar list"

text \<open>The exceptions the modelled code can raise.\<close>

datatype error =
    IndexError | KeyError | ValueError | TypeError | AttributeError
  | FileNotFoundError | JSONDecodeError | OSError | OverflowError

text \<open>
  Python values as they come out of \<open>json.load\<close> (and as the player stores its
  settings). A float is carried as a rational: the program never computes with it, it
  only hands it to \<open>time.sleep\<close>. A dict is an association list read with
  \<open>map_of\<close>.
\<close>

datatype pyval =
    PNone
  | PBool bool
  | PInt int
  | PFloat rat
  | PStr string
  | PList "pyval list"
  | PDict "(string \<times> pyval) list"

text \<open>\<open>xs[i]\<close>: a negative index counts from the end, out of range raises.\<close>

definition getitem :: "'a list \<Rightarrow> int \<Rightarrow> error + 'a" where
  "getitem xs i =
     (if 0 \<le> i \<and> i < int (length xs) then Inr (xs ! nat i)
      else if i < 0 \<and> - int (length xs) \<le> i then Inr (xs ! nat (int (length xs) + i))
      else Inl IndexError)"

text \<open>A loop that builds a list and stops at the first exception.\<close>

fun collect :: "('a \<Rightarrow> error + 'b) \<Rightarrow> 'a list \<Rightarrow> error + 'b list" where
  "collect f [] = Inr []"
| "collect f (x # xs) =
     (case f x of
        Inl e \<Rightarrow> Inl e
      | Inr y \<Rightarrow> (case collect f xs of Inl e \<Rightarrow> Inl e | Inr ys \<Rightarrow> Inr (y # ys)))"

section \<open>The frame generator (animation\_player.py)\<close>

text \<open>The truck sprite: 13 lines of 26 code points each.\<close>

definition TRUCK_SPRITE :: "pystr list" where
  "TRUCK_SPRITE = [
    [9618, 9618, 9618, 9618, 9618, 9618, 9618, 9618, 9618, 9618, 9618, 9618, 9618, 9618, 9618, 9618, 9618, 9618, 9618, 9618, 9618, 9618, 9618, 9618, 9618, 9618],
    [9618, 9618, 9618, 9618, 9618, 9618, 9618, 9618, 9618, 9618, 9618, 9618, 9618, 9618, 9618, 9618, 9618, 9618, 9618, 9618, 9618, 9618, 9618, 9618, 9618, 9618],
    [9627, 9600, 9600, 9600, 9600, 9600, 9600, 9600, 9600, 9600, 9600, 9600, 9600, 9600, 9600, 9600, 9600, 9600, 9600, 9600, 9608, 9618, 9618, 9618, 9618, 9618],
    [9612, 9618, 9618, 9618, 9618, 9618, 9618, 9618, 9618, 9618, 9618, 9618, 9618, 9618, 9618, 9618, 9618, 9618, 9618, 9618, 9608, 9604, 9604, 9604, 9618, 9618],
    [9612, 9618, 9618, 9618, 9618, 9618, 9618, 9618, 9618, 9618, 9618, 9618, 9618, 9618, 9618, 9618, 9618, 9618, 9618, 9618, 9608, 9618, 9618, 9616, 9618, 9618],
    [9612, 9618, 9618, 9618, 9600, 9600, 9628, 9618, 9600, 9600, 9628, 9618, 9627, 9628, 9618, 9627, 9628, 9618, 9618, 9618, 9608, 9553, 9608, 9616, 9618, 9618],
    [9612, 9604, 9604, 9618, 9604, 9604, 9631, 9618, 9604, 9604, 9631, 9553, 9625, 9631, 9618, 9625, 9631, 9618, 9618, 9618, 9608, 9553, 9612, 9616, 9618, 9618],
    [9612, 9618, 9618, 9618, 9612, 9618, 9618, 9618, 9612, 9618, 9618, 9618, 9612, 9612, 9618, 9612, 9612, 9618, 9618, 9618, 9608, 9608, 9608, 9608, 9608, 9618],
    [9612, 9618, 9618, 9618, 9625, 9604, 9604, 9618, 9625, 9604, 9604, 9618, 9612, 9625, 9618, 9612, 9625, 9618, 9618, 9618, 9608, 9608, 9608, 9608, 9608, 9618],
    [9612, 9618, 9618, 9618, 9618, 9618, 9618, 9618, 9618, 9618, 9618, 9618, 9618, 9618, 9618, 9618, 9618, 9618, 9618, 9618, 9608, 9608, 9608, 9608, 9608, 9618],
    [9625, 9604, 9604, 9604, 9604, 9604, 9604, 9604, 9604, 9604, 9604, 9604, 9604, 9604, 9604, 9604, 9604, 9604, 9604, 9604, 9608, 9608, 9608, 9608, 9608, 9618],
    [9618, 9618, 9627, 9628, 9627, 9628, 9618, 9618, 9618, 9618, 9618, 9618, 9618, 9618, 9618, 9618, 9627, 9628, 9627, 9628, 9618, 9618, 9618, 9618, 9618, 9618],
    [9618, 9618, 9625, 9631, 9625, 9631, 9618, 9618, 9618, 9618, 9618, 9618, 9618, 9618, 9618, 9618, 9625, 9631, 9625, 9631, 9618, 9618, 9618, 9618, 9618, 9618]
  ]"

definition BG_CHAR :: pychar where
  "BG_CHAR = 9618"

definition SCREEN_WIDTH :: int where
  "SCREEN_WIDTH = 26"

definition TRUCK_WIDTH :: int where
  "TRUCK_WIDTH = 26"

text \<open>
  \<open>generate_truck_frames\<close> reads the module constants \<open>TRUCK_SPRITE\<close>, \<open>BG_CHAR\<close>,
  \<open>SCREEN_WIDTH\<close> and \<open>TRUCK_WIDTH\<close>. \<open>generate_frames\<close> is its body with these four
  as parameters. \<open>range(a, b)\<close> over Python integers is \<open>[a..b - 1]\<close>, so
  \<open>range(-TRUCK_WIDTH, SCREEN_WIDTH + 1)\<close> is \<open>[- truck_width..screen_width]\<close>.
\<close>

definition render_line :: "pychar \<Rightarrow> int \<Rightarrow> int \<Rightarrow> int \<Rightarrow> pystr \<Rightarrow> error + pystr" where
  "render_line bg screen_width truck_width truck_pos sprite_line =
     collect (\<lambda>screen_x.
        let truck_x = screen_x - truck_pos
        in if 0 \<le> truck_x \<and> truck_x < truck_width then getitem sprite_line truck_x
           else Inr bg)
       [0..screen_width - 1]"

definition render_frame :: "pychar \<Rightarrow> int \<Rightarrow> int \<Rightarrow> pystr list \<Rightarrow> int \<Rightarrow> error + pystr list" where
  "render_frame bg screen_width truck_width sprite truck_pos =
     collect (render_line bg screen_width truck_width truck_pos) sprite"

definition generate_frames :: "pychar \<Rightarrow> int \<Rightarrow> int \<Rightarrow> pystr list \<Rightarrow> error + pystr list list" where
  "generate_frames bg screen_width truck_width sprite =
     collect (render_frame bg screen_width truck_width sprite)
       [- truck_width..screen_width]"

definition generate_truck_frames :: "error + pystr list list" where
  "generate_truck_frames = generate_frames BG_CHAR SCREEN_WIDTH TRUCK_WIDTH TRUCK_SPRITE"

text \<open>
  The cell the specification describes: at frame position \<open>p\<close> and screen column \<open>x\<close>
  the sprite character at column \<open>x - p\<close> when that offset lies in \<open>[0, S)\<close>, the
  background glyph otherwise.
\<close>

definition spec_cell :: "pychar \<Rightarrow> nat \<Rightarrow> pystr \<Rightarrow> int \<Rightarrow> int \<Rightarrow> pychar" where
  "spec_cell bg S sprite_line p x =
     (if 0 \<le> x - p \<and> x - p < int S then sprite_line ! nat (x - p) else bg)"

section \<open>The wire formatter (animation\_player.py)\<close>

text \<open>The code points \<open>str.isspace\<close> accepts; \<open>rstrip()\<close> and \<open>strip()\<close> remove them.\<close>

definition py_isspace :: "pychar \<Rightarrow> bool" where
  "py_isspace c =
     ((9 \<le> c \<and> c \<le> 13) \<or> (28 \<le> c \<and> c \<le> 32) \<or> c = 133 \<or> c = 160 \<or> c = 5760 \<or>
      (8192 \<le> c \<and> c \<le> 8202) \<or> c = 8232 \<or> c = 8233 \<or> c = 8239 \<or> c = 8287 \<or>
      c = 12288)"

definition rstrip :: "pystr \<Rightarrow> pystr" where
  "rstrip s = rev (dropWhile py_isspace (rev s))"

definition strip :: "pystr \<Rightarrow> pystr" where
  "strip s = dropWhile py_isspace (rstrip s)"

definition SPACE :: pychar where
  "SPACE = 32"

definition format_frame_for_valorant :: "pystr list \<Rightarrow> pystr" where
  "format_frame_for_valorant frame_lines =
     rstrip (foldl (\<lambda>result line. result @ line @ [SPACE]) [] frame_lines)"

text \<open>
  The branch of \<open>play_thread\<close> for a frame that is one \<open>str\<close>: a space after every
  26th character; \<open>j\<close> is the index of the character at the head.
\<close>

fun space_every_26 :: "nat \<Rightarrow> pystr \<Rightarrow> pystr" where
  "space_every_26 j [] = []"
| "space_every_26 j (c # cs) =
     (if (j + 1) mod 26 = 0 then [c, SPACE] else [c]) @ space_every_26 (j + 1) cs"

text \<open>
  The delimiter rule in the specification's words: a single space after every run of
  26 characters of the text.
\<close>

function delimit26 :: "pystr \<Rightarrow> pystr" where
  "delimit26 s =
     (if length s < 26 then s else take 26 s @ [SPACE] @ delimit26 (drop 26 s))"
  by pat_completeness auto
termination
  by (relation "measure length") auto

declare delimit26.simps [simp del]

section \<open>The playback subsequence\<close>

text \<open>
  The code compares frames with \<open>is not\<close>, the identity of the objects, so a frame
  sequence is a list of objects: each is its identity (an address) and its value.
\<close>

type_synonym 'a obj = "nat \<times> 'a"

definition is_not :: "'a obj \<Rightarrow> 'b obj \<Rightarrow> bool" where
  "is_not a b = (fst a \<noteq> fst b)"

text \<open>\<open>xs[::k]\<close> for \<open>k > 0\<close>: the items at indices \<open>0, k, 2k, ...\<close> below \<open>len(xs)\<close>.\<close>

definition every :: "nat \<Rightarrow> 'a list \<Rightarrow> 'a list" where
  "every k xs = map (\<lambda>i. xs ! (i * k)) [0..<(length xs + k - 1) div k]"

text \<open>
  \<open>xs[::step]\<close> for any Python value as the step: \<open>None\<close> is step 1, a \<open>bool\<close> is
  an \<open>int\<close>, step 0 raises \<open>ValueError\<close>, a negative step walks from the end, and
  any other type raises \<open>TypeError\<close>.
\<close>

fun slice_step :: "pyval \<Rightarrow> 'a list \<Rightarrow> error + 'a list" where
  "slice_step PNone xs = Inr xs"
| "slice_step (PBool b) xs = (if b then Inr xs else Inl ValueError)"
| "slice_step (PInt k) xs =
     (if k = 0 then Inl ValueError
      else if 0 < k then Inr (every (nat k) xs)
      else Inr (every (nat (- k)) (rev xs)))"
| "slice_step (PFloat r) xs = Inl TypeError"
| "slice_step (PStr s) xs = Inl TypeError"
| "slice_step (PList l) xs = Inl TypeError"
| "slice_step (PDict d) xs = Inl TypeError"

text \<open>
  The first lines of \<open>play_thread\<close> and of \<open>play_animation\<close>: the strided frames,
  and the last frame appended when the last strided one is not that object.
\<close>

definition frames_to_play :: "pyval \<Rightarrow> 'a obj list \<Rightarrow> error + 'a obj list" where
  "frames_to_play skip frames =
     (case slice_step skip frames of
        Inl e \<Rightarrow> Inl e
      | Inr sub \<Rightarrow>
          if frames \<noteq> [] \<and> is_not (last sub) (last frames) then Inr (sub @ [last frames])
          else Inr sub)"

section \<open>The animation config\<close>

definition default_config :: pyval where
  "default_config =
     PDict [(''animations'',
       PDict [(''Truck'', PDict [(''skip_frames'', PInt 5), (''frame_delay'', PFloat (1 / 2))])])]"

text \<open>
  \<open>load_animation_config\<close> (the same in both files) opens the file and parses it
  inside \<open>try\<close>, and catches \<open>FileNotFoundError\<close> only. Its argument is what
  \<open>open\<close> and \<open>json.load\<close> do: the exception either raises, or the parsed value.
\<close>

definition load_animation_config :: "error + pyval \<Rightarrow> error + pyval" where
  "load_animation_config file =
     (case file of
        Inl e \<Rightarrow> if e = FileNotFoundError then Inr default_config else Inl e
      | Inr v \<Rightarrow> Inr v)"

text \<open>\<open>d.get(k, dflt)\<close>; a value that is no dict has no \<open>get\<close>.\<close>

fun dict_get :: "pyval \<Rightarrow> string \<Rightarrow> pyval \<Rightarrow> error + pyval" where
  "dict_get (PDict kvs) k dflt = Inr (case map_of kvs k of None \<Rightarrow> dflt | Some v \<Rightarrow> v)"
| "dict_get PNone k dflt = Inl AttributeError"
| "dict_get (PBool b) k dflt = Inl AttributeError"
| "dict_get (PInt i) k dflt = Inl AttributeError"
| "dict_get (PFloat r) k dflt = Inl AttributeError"
| "dict_get (PStr s) k dflt = Inl AttributeError"
| "dict_get (PList l) k dflt = Inl AttributeError"

text \<open>
  The reads that follow every load: \<open>config.get("animations", {}).get(name, {})\<close>, then
  \<open>skip_frames\<close> with default 5 and \<open>frame_delay\<close> with default 0.5.
\<close>

definition anim_settings :: "pyval \<Rightarrow> string \<Rightarrow> error + pyval \<times> pyval" where
  "anim_settings config name =
     (case dict_get config ''animations'' (PDict []) of
        Inl e \<Rightarrow> Inl e
      | Inr anims \<Rightarrow>
     (case dict_get anims name (PDict []) of
        Inl e \<Rightarrow> Inl e
      | Inr anim_config \<Rightarrow>
     (case dict_get anim_config ''skip_frames'' (PInt 5) of
        Inl e \<Rightarrow> Inl e
      | Inr skip \<Rightarrow>
     (case dict_get anim_config ''frame_delay'' (PFloat (1 / 2)) of
        Inl e \<Rightarrow> Inl e
      | Inr frame_delay \<Rightarrow> Inr (skip, frame_delay)))))"

section \<open>Input injection and playback\<close>

datatype key = Shift | Enter | Ctrl | KeyChar char

datatype event =
    ClipboardCopy pystr
  | Press key
  | Release key
  | Sleep rat
  | FramePlayed nat
  | AnimationComplete

text \<open>
  \<open>type_line_in_chat\<close>: clipboard, Shift+Enter, Ctrl+V, Enter. \<open>play_animation\<close> of
  overlay.py has the same sequence inline.
\<close>

definition type_line_in_chat :: "pystr \<Rightarrow> event list" where
  "type_line_in_chat line =
     [ClipboardCopy line, Sleep (1 / 100),
      Press Shift, Sleep (1 / 100), Press Enter, Sleep (1 / 100), Release Enter,
      Sleep (1 / 100), Release Shift, Sleep (1 / 50),
      Press Ctrl, Press (KeyChar CHR ''v''), Release (KeyChar CHR ''v''), Release Ctrl,
      Sleep (1 / 100),
      Press Enter, Release Enter]"

text \<open>
  \<open>time.sleep(v)\<close> first converts \<open>v\<close> to a timestamp of 64-bit nanoseconds:
  any type but a number raises \<open>TypeError\<close>, a number out of that range raises
  \<open>OverflowError\<close>. A negative number then raises \<open>ValueError\<close>.
\<close>

definition MAX_SLEEP :: rat where
  "MAX_SLEEP = 9223372036854775807 / 1000000000"

definition sleep_seconds :: "rat \<Rightarrow> error + rat" where
  "sleep_seconds r =
     (if r < - MAX_SLEEP \<or> MAX_SLEEP < r then Inl OverflowError
      else if r < 0 then Inl ValueError
      else Inr r)"

fun sleep_for :: "pyval \<Rightarrow> error + rat" where
  "sleep_for (PInt n) = sleep_seconds (of_int n)"
| "sleep_for (PFloat r) = sleep_seconds r"
| "sleep_for (PBool b) = sleep_seconds (if b then 1 else 0)"
| "sleep_for PNone = Inl TypeError"
| "sleep_for (PStr s) = Inl TypeError"
| "sleep_for (PList l) = Inl TypeError"
| "sleep_for (PDict d) = Inl TypeError"

text \<open>
  A run of a playback thread is the events it emitted and the exception that ended
  it, if one did.
\<close>

type_synonym run = "event list \<times> error option"

fun after :: "event list \<Rightarrow> run \<Rightarrow> run" where
  "after evs (evs', r) = (evs @ evs', r)"

definition dispatches :: "run \<Rightarrow> pystr list" where
  "dispatches r = concat (map (\<lambda>e. case e of ClipboardCopy p \<Rightarrow> [p] | _ \<Rightarrow> []) (fst r))"

subsection \<open>overlay.py: \<open>trigger_animation\<close>\<close>

text \<open>
  \<open>TRUCK_ANIMATION\<close> is built once, when the module is imported. Every frame is a list
  object of its own; its identity is its position in the order of allocation. The
  generator raises nothing on the truck sprite (\<open>truck_generated\<close> below), so the
  second branch is never taken.
\<close>

definition TRUCK_ANIMATION :: "pystr list obj list" where
  "TRUCK_ANIMATION =
     (case generate_truck_frames of Inr fs \<Rightarrow> zip [0..<length fs] fs | Inl e \<Rightarrow> [])"

text \<open>The loop of \<open>play_animation\<close>: it sleeps after every frame it pasted.\<close>

fun play_frames :: "pyval \<Rightarrow> pystr list obj list \<Rightarrow> run" where
  "play_frames frame_delay [] = ([], None)"
| "play_frames frame_delay (frame # rest) =
     (let formatted = format_frame_for_valorant (snd frame)
      in if formatted \<noteq> [] then
           (case sleep_for frame_delay of
              Inl e \<Rightarrow> (type_line_in_chat formatted, Some e)
            | Inr d \<Rightarrow>
                after (type_line_in_chat formatted @ [Sleep d]) (play_frames frame_delay rest))
         else play_frames frame_delay rest)"

definition play_animation :: "error + pyval \<Rightarrow> string \<Rightarrow> run" where
  "play_animation file animation_name =
     (if animation_name = ''Truck'' then
        (case load_animation_config file of
           Inl e \<Rightarrow> ([], Some e)
         | Inr config \<Rightarrow>
        (case anim_settings config animation_name of
           Inl e \<Rightarrow> ([], Some e)
         | Inr (skip, frame_delay) \<Rightarrow>
        (case frames_to_play skip TRUCK_ANIMATION of
           Inl e \<Rightarrow> ([], Some e)
         | Inr to_play \<Rightarrow> play_frames frame_delay to_play)))
      else ([], None))"

subsection \<open>animation\_player.py: \<open>start_playback\<close>\<close>

text \<open>A frame of the player is a list of lines or, from the editor, one \<open>str\<close>.\<close>

datatype frame_val = Lines "pystr list" | Text pystr

record player =
  frames :: "frame_val obj list"
  skip_frames :: pyval
  frame_delay :: pyval

text \<open>What one iteration of \<open>play_thread\<close> hands to \<open>type_line_in_chat\<close>.\<close>

definition submit :: "frame_val \<Rightarrow> event list" where
  "submit frame =
     (case frame of
        Lines ls \<Rightarrow>
          (let formatted = format_frame_for_valorant ls
           in if formatted \<noteq> [] then type_line_in_chat formatted else [])
      | Text t \<Rightarrow>
          (if strip t \<noteq> [] then type_line_in_chat (rstrip (space_every_26 0 t)) else []))"

text \<open>
  The loop of \<open>play_thread\<close>. Another thread clears \<open>is_playing\<close>, so the flag is
  given by what each read of it returns: \<open>is_playing r\<close> is the value at read number
  \<open>r\<close>. An iteration reads it at its top and, when the frame is not the last one, once
  more before the sleep. \<open>n\<close> is \<open>len(frames_to_play)\<close>, \<open>i\<close> the index of the frame.
\<close>

fun play_loop :: "(nat \<Rightarrow> bool) \<Rightarrow> pyval \<Rightarrow> nat \<Rightarrow> nat \<Rightarrow> nat \<Rightarrow> frame_val obj list \<Rightarrow> run" where
  "play_loop is_playing delay n r i [] = ([AnimationComplete], None)"
| "play_loop is_playing delay n r i (frame # rest) =
     (if \<not> is_playing r then ([AnimationComplete], None)
      else
        (let evs = submit (snd frame) @ [FramePlayed (i + 1)]
         in if i + 1 < n then
              (if is_playing (r + 1) then
                 (case sleep_for delay of
                    Inl e \<Rightarrow> (evs, Some e)
                  | Inr d \<Rightarrow>
                      after (evs @ [Sleep d]) (play_loop is_playing delay n (r + 2) (i + 1) rest))
               else after evs (play_loop is_playing delay n (r + 2) (i + 1) rest))
            else after evs (play_loop is_playing delay n (r + 1) (i + 1) rest)))"

definition play_thread :: "player \<Rightarrow> (nat \<Rightarrow> bool) \<Rightarrow> run" where
  "play_thread self is_playing =
     (case frames_to_play (skip_frames self) (frames self) of
        Inl e \<Rightarrow> ([], Some e)
      | Inr to_play \<Rightarrow> play_loop is_playing (frame_delay self) (length to_play) 0 0 to_play)"

section \<open>The menu state machine (overlay.py)\<close>

definition main_options :: "string list" where
  "main_options =
     [''Rocket League'', ''Animations'', ''Combat'', ''Tactics'', ''Social'', ''Strategy'']"

definition builtin_menus :: "string list" where
  "builtin_menus = [''Combat'', ''Tactics'', ''Social'', ''Strategy'']"

definition animation_menus :: "string list" where
  "animation_menus = [''Animations'']"

definition valorant_menu_keys :: "(string \<times> int) list" where
  "valorant_menu_keys = [(''Combat'', 1), (''Tactics'', 2), (''Social'', 3), (''Strategy'', 4)]"

definition submenus :: "(string \<times> string list) list" where
  "submenus =
     [(''Combat'',
         [''Need Support'', ''Caution here!'', ''Need Healing!'', ''On My Way'',
          ''Ultimate Status'']),
      (''Tactics'',
         [''I'' @ [CHR 0x27] @ ''ll Take Point'', ''Let'' @ [CHR 0x27] @ ''s rush them!'',
          ''Be Quiet'', ''Fall Back!'', ''Play For Picks'']),
      (''Social'', [''Thanks'', ''Commend'', ''Yes'', ''No'', ''Sorry'', ''Hello'']),
      (''Strategy'', [''Going A'', ''Going B'', ''Going C'', ''Going Mid'']),
      (''Rocket League'', [''What a save!'', ''Nice shot!'', ''Thanks!'', ''Well played!'']),
      (''Animations'', [''Truck''])]"

text \<open>
  The fields of \<open>CommunicationMenu\<close> that the handlers read and write; \<open>visible\<close> is
  the widget's \<open>isVisible()\<close>. The widgets the handlers rebuild are left out.
\<close>

record menu =
  visible :: bool
  current_menu :: string
  main_menu_index :: int
  selection_pending :: bool
  options :: "string list"

text \<open>After \<open>__init__\<close>: \<open>init_ui\<close> ends with \<open>hide()\<close>.\<close>

definition init_menu :: menu where
  "init_menu =
     \<lparr>visible = False, current_menu = ''main'', main_menu_index = 0,
      selection_pending = False, options = main_options\<rparr>"

text \<open>
  What a selection starts: one of the three timer threads, and the single-shot timer
  (in milliseconds) that hides the overlay.
\<close>

datatype action =
    TriggerVoiceline int int
  | TriggerAnimation string
  | TypeInChat string
  | SingleShotHide nat

definition hide :: "menu \<Rightarrow> menu" where
  "hide self = self\<lparr>visible := False\<rparr>"

definition toggle_visibility :: "menu \<Rightarrow> menu" where
  "toggle_visibility self =
     (if visible self then hide self
      else self\<lparr>current_menu := ''main'', options := main_options,
                selection_pending := False, visible := True\<rparr>)"

text \<open>
  \<open>select_option\<close>. An exception leaves the slot; the selection then neither
  navigates nor dispatches.
\<close>

definition select_option :: "menu \<Rightarrow> int \<Rightarrow> error + menu \<times> action list" where
  "select_option self num =
     (if \<not> visible self then Inr (self, [])
      else if selection_pending self then Inr (self, [])
      else if num > int (length (options self)) then Inr (self, [])
      else
        (case getitem (options self) (num - 1) of
           Inl e \<Rightarrow> Inl e
         | Inr selected \<Rightarrow>
             if current_menu self = ''main'' then
               (case map_of submenus selected of
                  Some opts \<Rightarrow>
                    Inr (self\<lparr>main_menu_index := num, current_menu := selected,
                              options := opts\<rparr>, [])
                | None \<Rightarrow> Inr (self, []))
             else
               (let self' = self\<lparr>selection_pending := True\<rparr>
                in if current_menu self \<in> set builtin_menus then
                     (case map_of valorant_menu_keys (current_menu self) of
                        None \<Rightarrow> Inl KeyError
                      | Some valorant_main_key \<Rightarrow>
                          Inr (self', [TriggerVoiceline valorant_main_key num,
                                       SingleShotHide 500]))
                   else if current_menu self \<in> set animation_menus then
                     Inr (self', [TriggerAnimation selected, SingleShotHide 50])
                   else Inr (self', [TypeInChat selected, SingleShotHide 50]))))"

definition go_back :: "menu \<Rightarrow> menu" where
  "go_back self =
     (if current_menu self \<noteq> ''main'' then
        self\<lparr>current_menu := ''main'', options := main_options\<rparr>
      else self)"

definition handle_back :: "menu \<Rightarrow> menu" where
  "handle_back self = (if current_menu self \<noteq> ''main'' then go_back self else hide self)"

text \<open>
  The states the specification names, read off the fields: \<open>Hidden\<close>, \<open>AtRoot\<close> and
  \<open>AtSubmenu node originIndex\<close>.
\<close>

datatype nav = Hidden | AtRoot | AtSubmenu string int

definition nav_state :: "menu \<Rightarrow> nav" where
  "nav_state self =
     (if \<not> visible self then Hidden
      else if current_menu self = ''main'' then AtRoot
      else AtSubmenu (current_menu self) (main_menu_index self))"

text \<open>
  A run of selections with nothing in between: the actions of all of them, in order.
\<close>

fun select_all :: "menu \<Rightarrow> int list \<Rightarrow> error + menu \<times> action list" where
  "select_all self [] = Inr (self, [])"
| "select_all self (num # nums) =
     (case select_option self num of
        Inl e \<Rightarrow> Inl e
      | Inr (self', acts) \<Rightarrow>
          (case select_all self' nums of
             Inl e \<Rightarrow> Inl e
           | Inr (self'', acts') \<Rightarrow> Inr (self'', acts @ acts')))"

definition is_dispatch :: "action \<Rightarrow> bool" where
  "is_dispatch a = (case a of SingleShotHide ms \<Rightarrow> False | _ \<Rightarrow> True)"

text \<open>
  What the specification asks of a playback that is never cancelled: a sleep after
  every frame but the last.
\<close>

fun sleep_between :: "rat \<Rightarrow> nat \<Rightarrow> frame_val obj list \<Rightarrow> event list" where
  "sleep_between d i [] = [AnimationComplete]"
| "sleep_between d i [f] = submit (snd f) @ [FramePlayed (i + 1), AnimationComplete]"
| "sleep_between d i (f # g # fs) =
     submit (snd f) @ [FramePlayed (i + 1), Sleep d] @ sleep_between d (i + 1) (g # fs)"

text \<open>
  Two states of the menu: the Combat submenu as the overlay shows it, and the Rocket
  League submenu right after its first option was selected.
\<close>

definition combat_menu :: menu where
  "combat_menu =
     \<lparr>visible = True, current_menu = ''Combat'', main_menu_index = 3,
      selection_pending = False,
      options = [''Need Support'', ''Caution here!'', ''Need Healing!'', ''On My Way'',
                 ''Ultimate Status'']\<rparr>"

definition rocket_pending :: menu where
  "rocket_pending =
     \<lparr>visible = True, current_menu = ''Rocket League'', main_menu_index = 1,
      selection_pending = True,
      options = [''What a save!'', ''Nice shot!'', ''Thanks!'', ''Well played!'']\<rparr>"

section \<open>The frame generator: count, shape and cells\<close>

lemma collect_map:
  "(\<And>x. x \<in> set xs \<Longrightarrow> f x = Inr (g x)) \<Longrightarrow> collect f xs = Inr (map g xs)"
  by (induction xs) simp_all

lemma getitem_nth: "0 \<le> i \<Longrightarrow> i < int (length xs) \<Longrightarrow> getitem xs i = Inr (xs ! nat i)"
  by (simp add: getitem_def)

lemma render_line_eq:
  assumes "length l = S"
  shows "render_line bg W (int S) p l = Inr (map (spec_cell bg S l p) [0..W - 1])"
  unfolding render_line_def
  by (rule collect_map) (simp add: spec_cell_def Let_def getitem_nth assms)

lemma render_frame_eq:
  assumes "\<forall>l\<in>set sprite. length l = S"
  shows "render_frame bg W (int S) sprite p =
         Inr (map (\<lambda>l. map (spec_cell bg S l p) [0..W - 1]) sprite)"
  unfolding render_frame_def
  by (rule collect_map) (simp add: render_line_eq assms)

lemma generate_frames_eq:
  assumes "\<forall>l\<in>set sprite. length l = S"
  shows "generate_frames bg W (int S) sprite =
         Inr (map (\<lambda>p. map (\<lambda>l. map (spec_cell bg S l p) [0..W - 1]) sprite) [- int S..W])"
  unfolding generate_frames_def
  by (rule collect_map) (simp add: render_frame_eq assms)

lemma line_nth:
  "x < W \<Longrightarrow> map (spec_cell bg S l p) [0..int W - 1] ! x = spec_cell bg S l p (int x)"
  by simp

lemma line_all_bg:
  assumes "\<And>x. 0 \<le> x \<Longrightarrow> x < int W \<Longrightarrow> \<not> (0 \<le> x - p \<and> x - p < int S)"
  shows "map (spec_cell bg S l p) [0..int W - 1] = replicate W bg"
proof (rule nth_equalityI)
  show "length (map (spec_cell bg S l p) [0..int W - 1]) = length (replicate W bg)"
    by simp
next
  fix i assume "i < length (map (spec_cell bg S l p) [0..int W - 1])"
  then have i: "i < W" by simp
  then have "spec_cell bg S l p (int i) = bg"
    using assms [of "int i"] by (auto simp: spec_cell_def)
  with i show "map (spec_cell bg S l p) [0..int W - 1] ! i = replicate W bg ! i"
    by simp
qed

lemma line_at_zero:
  assumes "length l = S" and "S \<le> W"
  shows "map (spec_cell bg S l 0) [0..int W - 1] = l @ replicate (W - S) bg"
proof (rule nth_equalityI)
  show "length (map (spec_cell bg S l 0) [0..int W - 1]) = length (l @ replicate (W - S) bg)"
    using assms by simp
next
  fix i assume "i < length (map (spec_cell bg S l 0) [0..int W - 1])"
  then have i: "i < W" by simp
  then show "map (spec_cell bg S l 0) [0..int W - 1] ! i = (l @ replicate (W - S) bg) ! i"
    using assms by (simp add: spec_cell_def nth_append)
qed

lemma frame_nth:
  assumes "i < W + S + 1"
  shows "map (\<lambda>p. map (\<lambda>l. map (spec_cell bg S l p) [0..int W - 1]) sprite) [- int S..int W] ! i
         = map (\<lambda>l. map (spec_cell bg S l (int i - int S)) [0..int W - 1]) sprite"
  using assms by simp

lemma map_const_replicate:
  "(\<And>x. x \<in> set xs \<Longrightarrow> f x = c) \<Longrightarrow> map f xs = replicate (length xs) c"
  by (induction xs) simp_all

lemma truck_sprite_widths: "\<forall>l\<in>set TRUCK_SPRITE. length l = 26"
  by (simp add: TRUCK_SPRITE_def)

lemma truck_sprite_length: "length TRUCK_SPRITE = 13"
  by (simp add: TRUCK_SPRITE_def)

text \<open>
  C5. For every sprite whose lines all have width \<open>S\<close> and every screen width
  \<open>W \<ge> S\<close>, the generator raises nothing and returns exactly \<open>W + S + 1\<close> frames;
  each frame has as many lines as the sprite, and every line is \<open>W\<close> characters long.
\<close>

theorem frame_count_and_shape:
  assumes "\<forall>l\<in>set sprite. length l = S" and "S \<le> W"
  shows "\<exists>fs. generate_frames bg (int W) (int S) sprite = Inr fs \<and> length fs = W + S + 1 \<and>
           (\<forall>f\<in>set fs. length f = length sprite \<and> (\<forall>l\<in>set f. length l = W))"
  by (auto simp: generate_frames_eq [OF assms(1)])

text \<open>The truck: 26 + 26 + 1 = 53 frames of 13 lines of 26 characters.\<close>

theorem frame_count_and_shape_witness:
  "list_all (\<lambda>l. length l = 26) TRUCK_SPRITE \<and> (26::nat) \<le> 26 \<and>
   (\<exists>fs. generate_truck_frames = Inr fs \<and> length fs = 53 \<and>
      list_all (\<lambda>f. length f = 13 \<and> list_all (\<lambda>l. length l = 26) f) fs)"
proof -
  have h: "\<forall>l\<in>set TRUCK_SPRITE. length l = 26" by (rule truck_sprite_widths)
  from frame_count_and_shape [OF h, of 26 BG_CHAR]
  obtain fs where "generate_frames BG_CHAR (int 26) (int 26) TRUCK_SPRITE = Inr fs"
    and "length fs = 26 + 26 + 1"
    and "\<forall>f\<in>set fs. length f = length TRUCK_SPRITE \<and> (\<forall>l\<in>set f. length l = 26)"
    by auto
  then show ?thesis
    using h
    by (auto simp: generate_truck_frames_def SCREEN_WIDTH_def TRUCK_WIDTH_def
        truck_sprite_length list_all_iff)
qed

text \<open>
  C6. With the frames indexed from 0, the frame at position \<open>p\<close> is the one at index
  \<open>p + S\<close>. The frames at position \<open>-S\<close> (index 0) and at position \<open>W\<close> (index
  \<open>W + S\<close>) are all background. The frame at position 0 (index \<open>S\<close>) is the sprite at
  the left edge: every line is the sprite's line, followed by \<open>W - S\<close> background glyphs
  (none when \<open>W = S\<close>, as for the truck). In general the character of frame \<open>i\<close>, line
  \<open>j\<close>, column \<open>x\<close> is \<open>spec_cell\<close> at position \<open>i - S\<close>.
\<close>

theorem frame_cells:
  assumes "\<forall>l\<in>set sprite. length l = S" and "S \<le> W"
  shows "\<exists>fs. generate_frames bg (int W) (int S) sprite = Inr fs \<and>
           fs ! 0 = replicate (length sprite) (replicate W bg) \<and>
           fs ! (W + S) = replicate (length sprite) (replicate W bg) \<and>
           fs ! S = map (\<lambda>l. l @ replicate (W - S) bg) sprite \<and>
           (\<forall>i j x. i < W + S + 1 \<longrightarrow> j < length sprite \<longrightarrow> x < W \<longrightarrow>
              fs ! i ! j ! x = spec_cell bg S (sprite ! j) (int i - int S) (int x))"
proof -
  let ?fs = "map (\<lambda>p. map (\<lambda>l. map (spec_cell bg S l p) [0..int W - 1]) sprite) [- int S..int W]"
  have gen: "generate_frames bg (int W) (int S) sprite = Inr ?fs"
    by (rule generate_frames_eq [OF assms(1)])
  have first: "?fs ! 0 = replicate (length sprite) (replicate W bg)"
  proof -
    have "?fs ! 0 = map (\<lambda>l. map (spec_cell bg S l (int 0 - int S)) [0..int W - 1]) sprite"
      by (rule frame_nth) simp
    also have "\<dots> = replicate (length sprite) (replicate W bg)"
      by (rule map_const_replicate, rule line_all_bg) simp
    finally show ?thesis .
  qed
  have lastf: "?fs ! (W + S) = replicate (length sprite) (replicate W bg)"
  proof -
    have "?fs ! (W + S) = map (\<lambda>l. map (spec_cell bg S l (int (W + S) - int S)) [0..int W - 1]) sprite"
      by (rule frame_nth) simp
    also have "\<dots> = replicate (length sprite) (replicate W bg)"
      by (rule map_const_replicate, rule line_all_bg) simp
    finally show ?thesis .
  qed
  have zero: "?fs ! S = map (\<lambda>l. l @ replicate (W - S) bg) sprite"
  proof -
    have "?fs ! S = map (\<lambda>l. map (spec_cell bg S l (int S - int S)) [0..int W - 1]) sprite"
      by (rule frame_nth) simp
    also have "\<dots> = map (\<lambda>l. l @ replicate (W - S) bg) sprite"
      using assms by (simp add: line_at_zero)
    finally show ?thesis .
  qed
  have cell: "\<forall>i j x. i < W + S + 1 \<longrightarrow> j < length sprite \<longrightarrow> x < W \<longrightarrow>
              ?fs ! i ! j ! x = spec_cell bg S (sprite ! j) (int i - int S) (int x)"
  proof (intro allI impI)
    fix i j x assume i: "i < W + S + 1" and j: "j < length sprite" and x: "x < W"
    have "?fs ! i = map (\<lambda>l. map (spec_cell bg S l (int i - int S)) [0..int W - 1]) sprite"
      using i by (rule frame_nth)
    then have "?fs ! i ! j = map (spec_cell bg S (sprite ! j) (int i - int S)) [0..int W - 1]"
      using j by simp
    then show "?fs ! i ! j ! x = spec_cell bg S (sprite ! j) (int i - int S) (int x)"
      using x by (simp only: line_nth)
  qed
  from gen first lastf zero cell show ?thesis by blast
qed

text \<open>
  The truck: frames 0 and 52 are background, frame 26 is the sprite itself, and in frame
  30 (position 4) line 5 shows the sprite's column 0 at screen column 4 and background
  at column 3.
\<close>

theorem frame_cells_witness:
  "list_all (\<lambda>l. length l = 26) TRUCK_SPRITE \<and> (26::nat) \<le> 26 \<and>
   (\<exists>fs. generate_truck_frames = Inr fs \<and>
      fs ! 0 = replicate 13 (replicate 26 BG_CHAR) \<and>
      fs ! 52 = replicate 13 (replicate 26 BG_CHAR) \<and>
      fs ! 26 = TRUCK_SPRITE \<and>
      fs ! 30 ! 5 ! 4 = 9612 \<and> fs ! 30 ! 5 ! 3 = BG_CHAR)"
proof -
  have h: "\<forall>l\<in>set TRUCK_SPRITE. length l = 26" by (rule truck_sprite_widths)
  from frame_cells [OF h, of 26 BG_CHAR]
  obtain fs where gen: "generate_frames BG_CHAR (int 26) (int 26) TRUCK_SPRITE = Inr fs"
    and a: "fs ! 0 = replicate (length TRUCK_SPRITE) (replicate 26 BG_CHAR)"
    and b: "fs ! (26 + 26) = replicate (length TRUCK_SPRITE) (replicate 26 BG_CHAR)"
    and c: "fs ! 26 = map (\<lambda>l. l @ replicate (26 - 26) BG_CHAR) TRUCK_SPRITE"
    and d: "\<forall>i j x. i < 26 + 26 + 1 \<longrightarrow> j < length TRUCK_SPRITE \<longrightarrow> x < 26 \<longrightarrow>
              fs ! i ! j ! x = spec_cell BG_CHAR 26 (TRUCK_SPRITE ! j) (int i - int 26) (int x)"
    by auto
  have e1: "fs ! 30 ! 5 ! 4 = spec_cell BG_CHAR 26 (TRUCK_SPRITE ! 5) (int 30 - int 26) (int 4)"
    using d by (simp add: truck_sprite_length)
  have e2: "fs ! 30 ! 5 ! 3 = spec_cell BG_CHAR 26 (TRUCK_SPRITE ! 5) (int 30 - int 26) (int 3)"
    using d by (simp add: truck_sprite_length)
  have v1: "spec_cell BG_CHAR 26 (TRUCK_SPRITE ! 5) (int 30 - int 26) (int 4) = 9612"
    by (simp add: spec_cell_def TRUCK_SPRITE_def)
  have v2: "spec_cell BG_CHAR 26 (TRUCK_SPRITE ! 5) (int 30 - int 26) (int 3) = BG_CHAR"
    by (simp add: spec_cell_def)
  have e1': "fs ! 30 ! 5 ! 4 = 9612" unfolding e1 by (rule v1)
  have e2': "fs ! 30 ! 5 ! 3 = BG_CHAR" unfolding e2 by (rule v2)
  have gen': "generate_truck_frames = Inr fs"
    using gen by (simp add: generate_truck_frames_def SCREEN_WIDTH_def TRUCK_WIDTH_def)
  have a': "fs ! 0 = replicate 13 (replicate 26 BG_CHAR)"
    using a by (simp add: truck_sprite_length)
  have b': "fs ! 52 = replicate 13 (replicate 26 BG_CHAR)"
    using b by (simp add: truck_sprite_length)
  have c': "fs ! 26 = TRUCK_SPRITE" using c by simp
  have hw: "list_all (\<lambda>l. length l = 26) TRUCK_SPRITE" using h by (simp add: list_all_iff)
  have le: "(26::nat) \<le> 26" by simp
  from hw le gen' a' b' c' e1' e2' show ?thesis by blast
qed

section \<open>The playback subsequence contains the last frame once\<close>

lemma every_length: "length (every k xs) = (length xs + k - 1) div k"
  by (simp add: every_def)

lemma every_index_bound:
  assumes "0 < (k::nat)" and "i < (n + k - 1) div k"
  shows "i * k < n"
proof -
  from assms(2) have "Suc i \<le> (n + k - 1) div k" by simp
  then have "Suc i * k \<le> n + k - 1"
    using assms(1) by (simp only: less_eq_div_iff_mult_less_eq)
  then show ?thesis using assms(1) by simp
qed

lemma every_nonempty:
  assumes "0 < k" and "xs \<noteq> []"
  shows "every k xs \<noteq> []"
proof -
  have "k \<le> length xs + k - 1" using assms(2) by (cases xs) simp_all
  then have "0 < (length xs + k - 1) div k" using assms(1) by (simp add: div_greater_zero_iff)
  then show ?thesis by (simp add: every_def)
qed

lemma every_nth:
  "i < (length xs + k - 1) div k \<Longrightarrow> every k xs ! i = xs ! (i * k)"
  by (simp add: every_def)

lemma every_last:
  assumes "0 < k" and "xs \<noteq> []"
  shows "last (every k xs) = xs ! (((length xs + k - 1) div k - 1) * k)"
proof -
  have ne: "every k xs \<noteq> []" using assms by (rule every_nonempty)
  then have m: "0 < (length xs + k - 1) div k" by (simp add: every_def)
  have "last (every k xs) = every k xs ! (length (every k xs) - 1)"
    using ne by (rule last_conv_nth)
  also have "\<dots> = xs ! (((length xs + k - 1) div k - 1) * k)"
    using m by (simp add: every_length every_nth)
  finally show ?thesis .
qed

lemma filter_id_one:
  "distinct (map g ys) \<Longrightarrow> y \<in> set ys \<Longrightarrow> length (filter (\<lambda>z. g z = g y) ys) = 1"
proof (induction ys)
  case Nil
  then show ?case by simp
next
  case (Cons a ys)
  show ?case
  proof (cases "g a = g y")
    case True
    have na: "g a \<notin> set (map g ys)" using Cons.prems(1) by simp
    have "g z \<noteq> g y" if "z \<in> set ys" for z
    proof
      assume "g z = g y"
      then have "g a = g z" using True by simp
      moreover have "g z \<in> set (map g ys)" using that by simp
      ultimately show False using na by simp
    qed
    then have "filter (\<lambda>z. g z = g y) ys = []" by (simp add: filter_empty_conv)
    with True show ?thesis by simp
  next
    case False
    then have "y \<in> set ys" using Cons.prems(2) by auto
    with Cons False show ?thesis by simp
  qed
qed

text \<open>
  Where the object of the last frame stands at no earlier position, only the last index
  holds it.
\<close>

lemma last_id_index:
  assumes "fst (last xs) \<notin> fst ` set (butlast xs)" and "j < length xs"
    and "fst (xs ! j) = fst (last xs)"
  shows "j = length xs - 1"
proof (rule ccontr)
  assume "j \<noteq> length xs - 1"
  with assms(2) have j: "j < length (butlast xs)" by simp
  then have "butlast xs ! j \<in> set (butlast xs)" by (rule nth_mem)
  moreover have "butlast xs ! j = xs ! j" using j by (rule nth_butlast)
  ultimately have "xs ! j \<in> set (butlast xs)" by simp
  then have "fst (xs ! j) \<in> fst ` set (butlast xs)" by (rule imageI)
  with assms(1,3) show False by simp
qed

lemma last_only_at_end:
  assumes k: "0 < k" and ne: "xs \<noteq> []" and d: "fst (last xs) \<notin> fst ` set (butlast xs)"
    and z: "z \<in> set (every k xs)" and e: "fst z = fst (last xs)"
  shows "fst (last (every k xs)) = fst (last xs)"
proof -
  let ?n = "length xs" and ?m = "(length xs + k - 1) div k"
  from z obtain i where i: "i < ?m" and zi: "z = xs ! (i * k)"
    by (auto simp: every_def)
  have ib: "i * k < ?n" using k i by (rule every_index_bound)
  have m: "0 < ?m" using i by simp
  then have mb: "(?m - 1) * k < ?n" using every_index_bound [OF k, of "?m - 1" ?n] by simp
  have "fst (xs ! (i * k)) = fst (last xs)" using e zi by simp
  with d ib have "i * k = ?n - 1" by (rule last_id_index)
  moreover have "i \<le> ?m - 1" using i by arith
  then have "i * k \<le> (?m - 1) * k" by (rule mult_le_mono1)
  ultimately have "(?m - 1) * k = ?n - 1" using mb by simp
  then have "last (every k xs) = xs ! (?n - 1)" using every_last [OF k ne] by simp
  then show ?thesis using ne by (simp add: last_conv_nth)
qed

lemma last_sampled_once:
  assumes k: "0 < k" and ne: "xs \<noteq> []" and d: "fst (last xs) \<notin> fst ` set (butlast xs)"
    and same: "fst (last (every k xs)) = fst (last xs)"
  shows "length (filter (\<lambda>f. fst f = fst (last xs)) (every k xs)) = 1"
proof -
  let ?n = "length xs" and ?m = "(length xs + k - 1) div k"
  have m: "0 < ?m" using every_nonempty [OF k ne] by (simp add: every_def)
  have mb: "(?m - 1) * k < ?n" using every_index_bound [OF k, of "?m - 1" ?n] m by simp
  have "fst (xs ! ((?m - 1) * k)) = fst (last xs)" using same every_last [OF k ne] by simp
  with d mb have top: "(?m - 1) * k = ?n - 1" by (rule last_id_index)
  have iff: "(fst (xs ! (i * k)) = fst (last xs)) = (i = ?m - 1)" if "i \<in> set [0..<?m]" for i
  proof
    assume a: "fst (xs ! (i * k)) = fst (last xs)"
    have "i * k < ?n" using k that by (simp add: every_index_bound)
    with d have "i * k = ?n - 1" using a by (rule last_id_index)
    with top have "i * k = (?m - 1) * k" by simp
    then show "i = ?m - 1" using k by simp
  next
    assume "i = ?m - 1"
    then show "fst (xs ! (i * k)) = fst (last xs)" using top ne by (simp add: last_conv_nth)
  qed
  have f1: "filter (\<lambda>f. fst f = fst (last xs)) (every k xs) =
            map (\<lambda>i. xs ! (i * k)) (filter (\<lambda>i. fst (xs ! (i * k)) = fst (last xs)) [0..<?m])"
    by (simp add: every_def filter_map comp_def)
  have f2: "filter (\<lambda>i. fst (xs ! (i * k)) = fst (last xs)) [0..<?m] =
            filter (\<lambda>i. i = ?m - 1) [0..<?m]"
    by (rule filter_cong [OF refl]) (rule iff)
  have f3: "length (filter (\<lambda>i. i = ?m - 1) [0..<?m]) = 1"
    using filter_id_one [of "\<lambda>i. i" "[0..<?m]" "?m - 1"] m by simp
  have "length (filter (\<lambda>f. fst f = fst (last xs)) (every k xs)) =
        length (filter (\<lambda>i. i = ?m - 1) [0..<?m])"
    by (simp only: f1 f2 length_map)
  with f3 show ?thesis by simp
qed

text \<open>
  C2, as the code has it. Frames are compared by identity. For every stride
  \<open>k \<ge> 1\<close> and every non-empty frame sequence whose last frame is an object that
  stands at no earlier position of the sequence, the playback subsequence is built
  without an exception and exactly one of its elements is the last frame of the
  sequence, whether or not \<open>k\<close> divides the length.
\<close>

theorem last_frame_exactly_once:
  assumes "1 \<le> k" and "fs \<noteq> []" and "fst (last fs) \<notin> fst ` set (butlast fs)"
  shows "\<exists>sub. frames_to_play (PInt k) fs = Inr sub \<and>
           length (filter (\<lambda>f. \<not> is_not f (last fs)) sub) = 1"
proof -
  let ?k = "nat k" and ?sub = "every (nat k) fs"
  have k: "0 < ?k" using assms(1) by simp
  have sl: "slice_step (PInt k) fs = Inr ?sub" using assms(1) by simp
  have ne: "?sub \<noteq> []" using k assms(2) by (rule every_nonempty)
  show ?thesis
  proof (cases "is_not (last ?sub) (last fs)")
    case True
    have "\<forall>z\<in>set ?sub. fst z \<noteq> fst (last fs)"
    proof
      fix z assume "z \<in> set ?sub"
      show "fst z \<noteq> fst (last fs)"
      proof
        assume "fst z = fst (last fs)"
        with k assms(2,3) \<open>z \<in> set ?sub\<close> have "fst (last ?sub) = fst (last fs)"
          by (rule last_only_at_end)
        with True show False by (simp add: is_not_def)
      qed
    qed
    then have "filter (\<lambda>f. \<not> is_not f (last fs)) ?sub = []"
      by (simp add: filter_empty_conv is_not_def)
    moreover have "frames_to_play (PInt k) fs = Inr (?sub @ [last fs])"
      using True assms(2) sl by (simp add: frames_to_play_def)
    ultimately show ?thesis by (simp add: is_not_def)
  next
    case False
    then have same: "fst (last ?sub) = fst (last fs)" by (simp add: is_not_def)
    have "length (filter (\<lambda>f. fst f = fst (last fs)) ?sub) = 1"
      using k assms(2,3) same by (rule last_sampled_once)
    then have "length (filter (\<lambda>f. \<not> is_not f (last fs)) ?sub) = 1"
      by (simp add: is_not_def)
    moreover have "frames_to_play (PInt k) fs = Inr ?sub"
      using False sl by (simp add: frames_to_play_def)
    ultimately show ?thesis by simp
  qed
qed

text \<open>
  Four frames with the same text, the first and the third one object, stride 2: the
  last frame is an object of its own, it is appended and is there once.
\<close>

theorem last_frame_exactly_once_witness:
  "(1::int) \<le> 2 \<and> [(0::nat, 7::nat), (1, 7), (0, 7), (3, 7)] \<noteq> [] \<and>
   fst (last [(0::nat, 7::nat), (1, 7), (0, 7), (3, 7)]) \<notin>
     fst ` set (butlast [(0::nat, 7::nat), (1, 7), (0, 7), (3, 7)]) \<and>
   (\<exists>sub. frames_to_play (PInt 2) [(0::nat, 7::nat), (1, 7), (0, 7), (3, 7)] = Inr sub \<and>
      length (filter (\<lambda>f. \<not> is_not f (last [(0::nat, 7::nat), (1, 7), (0, 7), (3, 7)])) sub) = 1)"
proof -
  have h1: "(1::int) \<le> 2" by simp
  have h2: "[(0::nat, 7::nat), (1, 7), (0, 7), (3, 7)] \<noteq> []" by simp
  have h3: "fst (last [(0::nat, 7::nat), (1, 7), (0, 7), (3, 7)]) \<notin>
     fst ` set (butlast [(0::nat, 7::nat), (1, 7), (0, 7), (3, 7)])" by simp
  from last_frame_exactly_once [OF h1 h2 h3] h1 h2 h3 show ?thesis by blast
qed

lemma upt_2: "[0..<2] = [0, 1]"
  by code_simp

text \<open>
  C2 as stated fails where one object stands at two positions, as the one-character
  \<open>str\<close> frames of the player can: in the sequence \<open>z, y, x, z\<close> whose first and
  last frame are one object, stride 2 takes indices 0 and 2 and appends the last frame,
  so the subsequence holds the last frame's object twice.
\<close>

theorem shared_last_frame_counterexample:
  "frames_to_play (PInt 2)
     [(0, Text [122]), (1, Text [121]), (2, Text [120]), (0, Text [122])] =
     Inr [(0, Text [122]), (2, Text [120]), (0, Text [122])] \<and>
   length (filter
     (\<lambda>f. \<not> is_not f (last [(0, Text [122]), (1, Text [121]), (2, Text [120]), (0, Text [122])]))
     [(0, Text [122]), (2, Text [120]), (0, Text [122])]) = 2"
  by (simp add: frames_to_play_def every_def upt_2 is_not_def)

section \<open>The wire formatter\<close>

lemma foldl_lines:
  "foldl (\<lambda>result line. result @ line @ [SPACE]) acc ls =
     acc @ concat (map (\<lambda>l. l @ [SPACE]) ls)"
  by (induction ls arbitrary: acc) simp_all

lemma format_eq: "format_frame_for_valorant ls = rstrip (concat (map (\<lambda>l. l @ [SPACE]) ls))"
  by (simp add: format_frame_for_valorant_def foldl_lines)

lemma space_isspace: "py_isspace SPACE"
  by (simp add: py_isspace_def SPACE_def)

lemma bg_nonspace: "\<not> py_isspace BG_CHAR"
  by (simp add: BG_CHAR_def py_isspace_def)

lemma rstrip_Nil_iff: "rstrip s = [] \<longleftrightarrow> (\<forall>c\<in>set s. py_isspace c)"
  by (simp add: rstrip_def)

lemma rstrip_snoc_space: "py_isspace c \<Longrightarrow> rstrip (s @ [c]) = rstrip s"
  by (simp add: rstrip_def)

lemma rstrip_snoc_nonspace: "\<not> py_isspace c \<Longrightarrow> rstrip (s @ [c]) = s @ [c]"
  by (simp add: rstrip_def)

lemma rstrip_keep: "s \<noteq> [] \<Longrightarrow> \<not> py_isspace (last s) \<Longrightarrow> rstrip s = s"
  using rstrip_snoc_nonspace [of "last s" "butlast s"] by simp

lemma format_snoc:
  assumes "l \<noteq> []" and "\<not> py_isspace (last l)"
  shows "format_frame_for_valorant (bs @ [l]) = concat (map (\<lambda>l. l @ [SPACE]) bs) @ l"
proof -
  have "format_frame_for_valorant (bs @ [l]) =
        rstrip ((concat (map (\<lambda>l. l @ [SPACE]) bs) @ l) @ [SPACE])"
    by (simp add: format_eq)
  also have "\<dots> = rstrip (concat (map (\<lambda>l. l @ [SPACE]) bs) @ l)"
    by (rule rstrip_snoc_space [OF space_isspace])
  also have "\<dots> = concat (map (\<lambda>l. l @ [SPACE]) bs) @ l"
    by (rule rstrip_keep) (simp_all add: assms)
  finally show ?thesis .
qed

lemma format_nonempty:
  "l \<in> set ls \<Longrightarrow> c \<in> set l \<Longrightarrow> \<not> py_isspace c \<Longrightarrow> format_frame_for_valorant ls \<noteq> []"
  by (auto simp: format_eq rstrip_Nil_iff)

lemma delimit26_short: "length s < 26 \<Longrightarrow> delimit26 s = s"
proof -
  assume a: "length s < 26"
  have "delimit26 s = (if length s < 26 then s else take 26 s @ [SPACE] @ delimit26 (drop 26 s))"
    by (rule delimit26.simps)
  with a show ?thesis by simp
qed

lemma delimit26_run: "length l = 26 \<Longrightarrow> delimit26 (l @ s) = l @ [SPACE] @ delimit26 s"
proof -
  assume a: "length l = 26"
  have "delimit26 (l @ s) =
        (if length (l @ s) < 26 then l @ s
         else take 26 (l @ s) @ [SPACE] @ delimit26 (drop 26 (l @ s)))"
    by (rule delimit26.simps)
  with a show ?thesis by simp
qed

lemma delimit26_lines:
  "(\<forall>l\<in>set ls. length l = 26) \<Longrightarrow> delimit26 (concat ls) = concat (map (\<lambda>l. l @ [SPACE]) ls)"
  by (induction ls) (simp_all add: delimit26_short delimit26_run)

lemma space_every_26_short: "j + length t < 26 \<Longrightarrow> space_every_26 j t = t"
  by (induction t arbitrary: j) simp_all

lemma space_every_26_run:
  "j + length t = 26 \<Longrightarrow> t \<noteq> [] \<Longrightarrow> space_every_26 j t = t @ [SPACE]"
proof (induction t arbitrary: j)
  case Nil
  then show ?case by simp
next
  case (Cons c cs)
  show ?case
  proof (cases "cs = []")
    case True
    with Cons.prems(1) have "(j + 1) mod 26 = 0" by simp
    with True show ?thesis by simp
  next
    case False
    then have l: "0 < length cs" by simp
    from Cons.prems(1) have e: "j + Suc (length cs) = 26" by simp
    have lt: "j + 1 < 26" using e l by arith
    have eq: "(j + 1) + length cs = 26" using e by arith
    have "space_every_26 (j + 1) cs = cs @ [SPACE]" using eq False by (rule Cons.IH)
    moreover have "(j + 1) mod 26 \<noteq> 0" using lt by simp
    ultimately show ?thesis by simp
  qed
qed

lemma space_every_26_append:
  "space_every_26 j (a @ b) = space_every_26 j a @ space_every_26 (j + length a) b"
  by (induction a arbitrary: j) simp_all

lemma space_every_26_period: "space_every_26 (j + 26) t = space_every_26 j t"
proof (induction t arbitrary: j)
  case Nil
  show ?case by simp
next
  case (Cons c cs)
  have m: "(j + 26 + 1) mod 26 = (j + 1) mod 26"
    using mod_add_self2 [of "j + 1" 26] by (simp add: ac_simps)
  have r: "space_every_26 (j + 26 + 1) cs = space_every_26 (j + 1) cs"
    using Cons.IH [of "j + 1"] by simp
  show ?case by (simp only: space_every_26.simps m r)
qed

lemma space_every_26_delimit: "space_every_26 0 t = delimit26 t"
proof (induction t rule: delimit26.induct)
  case (1 s)
  show ?case
  proof (cases "length s < 26")
    case True
    then show ?thesis by (simp add: space_every_26_short delimit26_short)
  next
    case False
    define a where "a = take 26 s"
    define b where "b = drop 26 s"
    have s: "s = a @ b" by (simp add: a_def b_def)
    have la: "length a = 26" using False by (simp add: a_def)
    have ne: "a \<noteq> []" using la by auto
    have 1: "space_every_26 0 (a @ b) = space_every_26 0 a @ space_every_26 (0 + length a) b"
      by (rule space_every_26_append)
    have 2: "space_every_26 0 a = a @ [SPACE]"
      using la ne by (simp add: space_every_26_run)
    have 3: "space_every_26 (0 + length a) b = space_every_26 0 b"
      using space_every_26_period [of 0 b] la by simp
    have 4: "space_every_26 0 b = delimit26 b"
      using "1.IH" False by (simp add: b_def)
    have "space_every_26 0 (a @ b) = (a @ [SPACE]) @ delimit26 b"
      by (simp only: 1 2 3 4)
    moreover have "delimit26 (a @ b) = a @ [SPACE] @ delimit26 b"
      using la by (rule delimit26_run)
    ultimately have "space_every_26 0 (a @ b) = delimit26 (a @ b)" by simp
    then show ?thesis by (simp only: s [symmetric])
  qed
qed

lemma rstrip_strips_all:
  "\<exists>ws. s = rstrip s @ ws \<and> list_all py_isspace ws \<and>
        (rstrip s = [] \<or> \<not> py_isspace (last (rstrip s)))"
proof -
  let ?r = "rev s"
  have 1: "s = rstrip s @ rev (takeWhile py_isspace ?r)"
  proof -
    have "s = rev (takeWhile py_isspace ?r @ dropWhile py_isspace ?r)" by simp
    also have "\<dots> = rev (dropWhile py_isspace ?r) @ rev (takeWhile py_isspace ?r)"
      by (rule rev_append)
    finally show ?thesis unfolding rstrip_def .
  qed
  have 2: "list_all py_isspace (rev (takeWhile py_isspace ?r))"
    by (auto simp: list_all_iff dest: set_takeWhileD)
  have 3: "rstrip s = [] \<or> \<not> py_isspace (last (rstrip s))"
  proof (cases "dropWhile py_isspace ?r = []")
    case True
    then show ?thesis by (simp add: rstrip_def)
  next
    case False
    then have "\<not> py_isspace (hd (dropWhile py_isspace ?r))" by (rule hd_dropWhile)
    with False show ?thesis by (simp add: rstrip_def last_rev)
  qed
  from 1 2 3 show ?thesis by blast
qed

text \<open>
  C9, as the code has it. For a frame whose lines are 26 characters each, the formatter
  gives the frame's text with a single space after every run of 26 characters, and for
  a frame that is one string the \<open>str\<close> branch of \<open>play_thread\<close> gives the same, for
  a string of any length. Both then strip all trailing whitespace of the result
  (\<open>rstrip()\<close>), the delimiter at the end and whatever whitespace ends the text, not one
  delimiter. A single 26-character line that does not end in whitespace is formatted to
  itself.
\<close>

theorem wire_format:
  "((\<forall>l\<in>set ls. length l = 26) \<longrightarrow>
      format_frame_for_valorant ls = rstrip (delimit26 (concat ls))) \<and>
   rstrip (space_every_26 0 t) = rstrip (delimit26 t) \<and>
   (\<exists>ws. s = rstrip s @ ws \<and> list_all py_isspace ws \<and>
         (rstrip s = [] \<or> \<not> py_isspace (last (rstrip s)))) \<and>
   (length l = 26 \<and> \<not> py_isspace (last l) \<longrightarrow>
      format_frame_for_valorant [l] = l \<and> rstrip (space_every_26 0 l) = l)"
proof (intro conjI impI)
  assume "\<forall>l\<in>set ls. length l = 26"
  then show "format_frame_for_valorant ls = rstrip (delimit26 (concat ls))"
    by (simp add: format_eq delimit26_lines)
next
  show "rstrip (space_every_26 0 t) = rstrip (delimit26 t)"
    by (simp only: space_every_26_delimit)
next
  show "\<exists>ws. s = rstrip s @ ws \<and> list_all py_isspace ws \<and>
         (rstrip s = [] \<or> \<not> py_isspace (last (rstrip s)))"
    by (rule rstrip_strips_all)
next
  assume a: "length l = 26 \<and> \<not> py_isspace (last l)"
  then have ne: "l \<noteq> []" by auto
  with a show "format_frame_for_valorant [l] = l"
    using format_snoc [of l "[]"] by simp
next
  assume a: "length l = 26 \<and> \<not> py_isspace (last l)"
  then have ne: "l \<noteq> []" by auto
  have "space_every_26 0 l = l @ [SPACE]" using a ne by (simp add: space_every_26_run)
  then have "rstrip (space_every_26 0 l) = rstrip l"
    by (simp add: rstrip_snoc_space space_isspace)
  also have "\<dots> = l" using ne a by (simp add: rstrip_keep)
  finally show "rstrip (space_every_26 0 l) = l" .
qed

text \<open>
  Two lines of 26 background glyphs, as a frame of lines and as one string of 52, and
  one such line alone.
\<close>

theorem wire_format_witness:
  "list_all (\<lambda>l. length l = 26) [replicate 26 BG_CHAR, replicate 26 BG_CHAR] \<and>
   length (replicate 26 BG_CHAR) = 26 \<and> \<not> py_isspace (last (replicate 26 BG_CHAR)) \<and>
   format_frame_for_valorant [replicate 26 BG_CHAR, replicate 26 BG_CHAR] =
     rstrip (delimit26 (concat [replicate 26 BG_CHAR, replicate 26 BG_CHAR])) \<and>
   rstrip (space_every_26 0 (replicate 52 BG_CHAR)) = rstrip (delimit26 (replicate 52 BG_CHAR)) \<and>
   format_frame_for_valorant [replicate 26 BG_CHAR] = replicate 26 BG_CHAR \<and>
   rstrip (space_every_26 0 (replicate 26 BG_CHAR)) = replicate 26 BG_CHAR"
proof -
  have n: "\<not> py_isspace (last (replicate 26 BG_CHAR))" by (simp add: bg_nonspace)
  have l: "length (replicate 26 BG_CHAR) = 26" by simp
  have a: "\<forall>l\<in>set [replicate 26 BG_CHAR, replicate 26 BG_CHAR]. length l = 26" by simp
  have a': "list_all (\<lambda>l. length l = 26) [replicate 26 BG_CHAR, replicate 26 BG_CHAR]" by simp
  from wire_format [of "[replicate 26 BG_CHAR, replicate 26 BG_CHAR]" "replicate 52 BG_CHAR"
      "[]" "replicate 26 BG_CHAR"] n l a a'
  show ?thesis by blast
qed

text \<open>
  C9 as stated fails: a 26-character line that ends in a space (25 times \<open>x\<close>, then a
  space) is formatted to its first 25 characters.
\<close>

theorem wire_format_counterexample:
  "length (replicate 25 (120::nat) @ [SPACE]) = 26 \<and>
   format_frame_for_valorant [replicate 25 120 @ [SPACE]] = replicate 25 120 \<and>
   format_frame_for_valorant [replicate 25 120 @ [SPACE]] \<noteq> replicate 25 120 @ [SPACE]"
proof -
  have x: "\<not> py_isspace 120" by (simp add: py_isspace_def)
  have "format_frame_for_valorant [replicate 25 120 @ [SPACE]]
        = rstrip ((replicate 25 120 @ [SPACE]) @ [SPACE])"
    by (simp add: format_eq)
  also have "\<dots> = rstrip (replicate 25 120 @ [SPACE])"
    by (rule rstrip_snoc_space [OF space_isspace])
  also have "\<dots> = rstrip (replicate 25 120)"
    by (rule rstrip_snoc_space [OF space_isspace])
  also have "\<dots> = replicate 25 120"
    by (rule rstrip_keep) (simp_all add: x)
  finally have f: "format_frame_for_valorant [replicate 25 120 @ [SPACE]] = replicate 25 120" .
  have "length (replicate 25 (120::nat) @ [SPACE]) = 26" by simp
  moreover have "replicate 25 (120::nat) \<noteq> replicate 25 120 @ [SPACE]" by simp
  ultimately show ?thesis using f by simp
qed

section \<open>Playback of the truck animation\<close>

lemma truck_sprite_nonspace: "\<forall>l\<in>set TRUCK_SPRITE. \<forall>c\<in>set l. \<not> py_isspace c"
  by (simp add: TRUCK_SPRITE_def py_isspace_def)

lemma truck_sprite_nonempty: "TRUCK_SPRITE \<noteq> []"
  by (simp add: TRUCK_SPRITE_def)

lemma spec_cell_nonspace:
  assumes "length l = S" and "\<forall>c\<in>set l. \<not> py_isspace c" and "\<not> py_isspace bg"
  shows "\<not> py_isspace (spec_cell bg S l p x)"
  using assms by (auto simp: spec_cell_def)

lemma generated_props:
  assumes w: "\<forall>l\<in>set sprite. length l = S" and ne: "sprite \<noteq> []" and W: "0 < W"
    and bg: "\<not> py_isspace bg" and sp: "\<forall>l\<in>set sprite. \<forall>c\<in>set l. \<not> py_isspace c"
  shows "\<exists>fs. generate_frames bg (int W) (int S) sprite = Inr fs \<and> length fs = W + S + 1 \<and>
           (\<forall>f\<in>set fs. format_frame_for_valorant f \<noteq> [])"
proof -
  let ?line = "\<lambda>p l. map (spec_cell bg S l p) [0..int W - 1]"
  let ?frame = "\<lambda>p. map (?line p) sprite"
  let ?fs = "map ?frame [- int S..int W]"
  have gen: "generate_frames bg (int W) (int S) sprite = Inr ?fs"
    by (rule generate_frames_eq [OF w])
  have len: "length ?fs = W + S + 1" by simp
  have "format_frame_for_valorant f \<noteq> []" if "f \<in> set ?fs" for f
  proof -
    from that obtain p where f: "f = ?frame p" by auto
    obtain l0 rest where s: "sprite = l0 # rest" using ne by (cases sprite) auto
    have l0: "length l0 = S" "\<forall>c\<in>set l0. \<not> py_isspace c" using w sp s by auto
    have 1: "?line p l0 \<in> set f" using f s by simp
    have "(0::int) \<in> set [0..int W - 1]" using W by simp
    then have 2: "spec_cell bg S l0 p 0 \<in> set (?line p l0)" by (simp only: set_map image_eqI)
    have 3: "\<not> py_isspace (spec_cell bg S l0 p 0)" using l0 bg by (rule spec_cell_nonspace)
    from 1 2 3 show ?thesis by (rule format_nonempty)
  qed
  with gen len show ?thesis by blast
qed

lemma truck_generated:
  "\<exists>G. generate_truck_frames = Inr G \<and> length G = 53 \<and>
       (\<forall>f\<in>set G. format_frame_for_valorant f \<noteq> [])"
proof -
  from generated_props [OF truck_sprite_widths truck_sprite_nonempty _ bg_nonspace
      truck_sprite_nonspace, of 26]
  obtain G where "generate_frames BG_CHAR (int 26) (int 26) TRUCK_SPRITE = Inr G"
    and "length G = 26 + 26 + 1" and "\<forall>f\<in>set G. format_frame_for_valorant f \<noteq> []"
    by auto
  then show ?thesis
    by (auto simp: generate_truck_frames_def SCREEN_WIDTH_def TRUCK_WIDTH_def)
qed

lemma alloc_length: "length (zip [0..<length G] G) = length G"
  by simp

lemma alloc_id: "i < length G \<Longrightarrow> fst (zip [0..<length G] G ! i) = i"
  by simp

lemma alloc_val: "f \<in> set (zip [0..<length G] G) \<Longrightarrow> snd f \<in> set G"
  by (cases f) (auto dest: set_zip_rightD)

lemma truck_animation_props:
  "length TRUCK_ANIMATION = 53 \<and> (\<forall>i<53. fst (TRUCK_ANIMATION ! i) = i) \<and>
   (\<forall>f\<in>set TRUCK_ANIMATION. format_frame_for_valorant (snd f) \<noteq> [])"
proof -
  from truck_generated obtain G where gen: "generate_truck_frames = Inr G"
    and len: "length G = 53" and fmt: "\<forall>f\<in>set G. format_frame_for_valorant f \<noteq> []"
    by auto
  have ta: "TRUCK_ANIMATION = zip [0..<length G] G" by (simp add: TRUCK_ANIMATION_def gen)
  have 1: "length TRUCK_ANIMATION = 53" unfolding ta alloc_length by (rule len)
  have 2: "\<forall>i<53. fst (TRUCK_ANIMATION ! i) = i"
    unfolding ta using alloc_id [of _ G] len by simp
  have 3: "\<forall>f\<in>set TRUCK_ANIMATION. format_frame_for_valorant (snd f) \<noteq> []"
    unfolding ta using alloc_val [of _ G] fmt by blast
  from 1 2 3 show ?thesis by blast
qed

lemma upt_11: "[0..<11] = [0, 1, 2, 3, 4, 5, 6, 7, 8, 9, 10]"
  by code_simp

lemma every_5_of_53:
  assumes "length xs = 53"
  shows "every 5 xs = map ((!) xs) [0, 5, 10, 15, 20, 25, 30, 35, 40, 45, 50]"
proof -
  have "(length xs + 5 - 1) div 5 = 11" using assms by simp
  then have "every 5 xs = map (\<lambda>i. xs ! (i * 5)) [0..<11]" by (simp only: every_def)
  then show ?thesis by (simp only: upt_11) simp
qed

lemma truck_to_play:
  "frames_to_play (PInt 5) TRUCK_ANIMATION =
     Inr (map ((!) TRUCK_ANIMATION) [0, 5, 10, 15, 20, 25, 30, 35, 40, 45, 50, 52])"
proof -
  from truck_animation_props have len: "length TRUCK_ANIMATION = 53"
    and ids: "\<forall>i<53. fst (TRUCK_ANIMATION ! i) = i" by auto
  have ne: "TRUCK_ANIMATION \<noteq> []" using len by auto
  have sub: "slice_step (PInt 5) TRUCK_ANIMATION =
      Inr (map ((!) TRUCK_ANIMATION) [0, 5, 10, 15, 20, 25, 30, 35, 40, 45, 50])"
    using every_5_of_53 [OF len] by simp
  have l2: "last TRUCK_ANIMATION = TRUCK_ANIMATION ! 52"
    using ne len by (simp add: last_conv_nth)
  have "fst (TRUCK_ANIMATION ! 50) = 50" "fst (TRUCK_ANIMATION ! 52) = 52" using ids by simp_all
  then have diff: "is_not (TRUCK_ANIMATION ! 50) (TRUCK_ANIMATION ! 52)" by (simp add: is_not_def)
  show ?thesis
    unfolding frames_to_play_def sub using ne diff by (simp add: l2)
qed

lemma play_frames_all:
  assumes "sleep_for delay = Inr d" and "\<forall>f\<in>set fs. format_frame_for_valorant (snd f) \<noteq> []"
  shows "play_frames delay fs =
     (concat (map (\<lambda>f. type_line_in_chat (format_frame_for_valorant (snd f)) @ [Sleep d]) fs),
      None)"
  using assms by (induction fs) (simp_all add: Let_def)

lemma dispatches_pastes:
  "dispatches (concat (map (\<lambda>f. type_line_in_chat (g f) @ [Sleep d]) fs), r) = map g fs"
  by (induction fs) (simp_all add: dispatches_def type_line_in_chat_def)

lemma settings_default: "anim_settings default_config ''Truck'' = Inr (PInt 5, PFloat (1 / 2))"
  by (simp add: anim_settings_def default_config_def)

lemma settings_without_animations_level:
  "anim_settings
     (PDict [(''Truck'', PDict [(''skip_frames'', PInt 5), (''frame_delay'', PFloat (1 / 2))])])
     ''Truck'' = Inr (PInt 5, PFloat (1 / 2))"
  by (simp add: anim_settings_def)

lemma truck_run:
  "play_animation (Inr default_config) ''Truck'' =
     (concat (map (\<lambda>i. type_line_in_chat (format_frame_for_valorant (snd (TRUCK_ANIMATION ! i))) @
                       [Sleep (1 / 2)])
        [0, 5, 10, 15, 20, 25, 30, 35, 40, 45, 50, 52]), None)"
proof -
  let ?idx = "[0, 5, 10, 15, 20, 25, 30, 35, 40, 45, 50, 52::nat]"
  let ?tp = "map ((!) TRUCK_ANIMATION) ?idx"
  from truck_animation_props have len: "length TRUCK_ANIMATION = 53"
    and fmt: "\<forall>f\<in>set TRUCK_ANIMATION. format_frame_for_valorant (snd f) \<noteq> []" by auto
  have "\<forall>i\<in>set ?idx. i < length TRUCK_ANIMATION" unfolding len by simp
  then have "\<forall>f\<in>set ?tp. f \<in> set TRUCK_ANIMATION" by (auto simp only: set_map nth_mem)
  with fmt have ok: "\<forall>f\<in>set ?tp. format_frame_for_valorant (snd f) \<noteq> []" by blast
  have sl: "sleep_for (PFloat (1 / 2)) = Inr (1 / 2)"
    by (simp add: sleep_seconds_def MAX_SLEEP_def)
  have "play_animation (Inr default_config) ''Truck'' = play_frames (PFloat (1 / 2)) ?tp"
    by (simp add: play_animation_def load_animation_config_def settings_default truck_to_play
        del: play_frames.simps)
  also have "\<dots> = (concat (map (\<lambda>f. type_line_in_chat (format_frame_for_valorant (snd f)) @
                                      [Sleep (1 / 2)]) ?tp), None)"
    using sl ok by (rule play_frames_all)
  also have "\<dots> = (concat (map (\<lambda>i. type_line_in_chat
                         (format_frame_for_valorant (snd (TRUCK_ANIMATION ! i))) @
                                      [Sleep (1 / 2)]) ?idx), None)"
    by (simp only: map_map comp_def)
  finally show ?thesis .
qed

text \<open>
  C1, as the code has it. With the config that maps \<open>Truck\<close> to \<open>skip_frames\<close> 5 and
  \<open>frame_delay\<close> 0.5, playback of the 53-frame truck animation pastes the frames at
  indices 0, 5, 10, ..., 50 and 52, in this order, and ends without an exception: these
  are 12 dispatches, not 11.
\<close>

theorem truck_playback_dispatches:
  "dispatches (play_animation (Inr default_config) ''Truck'') =
     map (\<lambda>i. format_frame_for_valorant (snd (TRUCK_ANIMATION ! i)))
       [0, 5, 10, 15, 20, 25, 30, 35, 40, 45, 50, 52] \<and>
   length (dispatches (play_animation (Inr default_config) ''Truck'')) = 12 \<and>
   snd (play_animation (Inr default_config) ''Truck'') = None"
  unfolding truck_run dispatches_pastes by simp

text \<open>C1 as stated fails: the number of dispatches is not 11.\<close>

theorem truck_playback_counterexample:
  "length (dispatches (play_animation (Inr default_config) ''Truck'')) \<noteq> 11"
  unfolding truck_run dispatches_pastes by simp

text \<open>
  C8. \<open>play_animation\<close> of overlay.py does not do what the claim says: it sleeps for
  \<open>frame_delay\<close> after the final frame too. Its run on the truck animation ends with
  the paste of frame 52 and a sleep of 0.5 seconds.
\<close>

theorem overlay_sleeps_after_final_frame:
  "\<exists>evs. play_animation (Inr default_config) ''Truck'' =
     (evs @ type_line_in_chat (format_frame_for_valorant (snd (TRUCK_ANIMATION ! 52))) @
        [Sleep (1 / 2)], None)"
  unfolding truck_run by (simp del: append_assoc add: append_assoc [symmetric])

text \<open>
  \<open>play_thread\<close> of animation\_player.py does: when the flag stays set it sleeps after
  every frame but the last, and once the flag is read as cleared at the top of an
  iteration nothing more is submitted.
\<close>

lemma play_loop_uncancelled:
  "sleep_for delay = Inr d \<Longrightarrow> n = i + length fs \<Longrightarrow>
   play_loop (\<lambda>r. True) delay n r i fs = (sleep_between d i fs, None)"
  by (induction d i fs arbitrary: r rule: sleep_between.induct) (simp_all add: Let_def)

lemma play_loop_cancelled:
  "\<not> is_playing r \<Longrightarrow> play_loop is_playing delay n r i fs = ([AnimationComplete], None)"
  by (cases fs) simp_all

section \<open>Loading the config\<close>

text \<open>
  C3, as the code has it. A missing file gives the built-in default (one animation,
  \<open>Truck\<close>, stride 5, delay 0.5). A file that parses is returned as it is. Any other
  exception of \<open>open\<close> or \<open>json.load\<close>, such as \<open>JSONDecodeError\<close> for corrupt
  contents, is not caught and propagates. For a loaded dict, the reads fill in 5 and 0.5
  field by field where a key is absent.
\<close>

theorem load_config_behaviour:
  "load_animation_config (Inl FileNotFoundError) = Inr default_config \<and>
   load_animation_config (Inr v) = Inr v \<and>
   (e \<noteq> FileNotFoundError \<longrightarrow> load_animation_config (Inl e) = Inl e) \<and>
   (map_of c ''animations'' = None \<longrightarrow>
      anim_settings (PDict c) name = Inr (PInt 5, PFloat (1 / 2))) \<and>
   (map_of c ''animations'' = Some (PDict a) \<and> map_of a name = None \<longrightarrow>
      anim_settings (PDict c) name = Inr (PInt 5, PFloat (1 / 2))) \<and>
   (map_of c ''animations'' = Some (PDict a) \<and> map_of a name = Some (PDict t) \<longrightarrow>
      anim_settings (PDict c) name =
        Inr (case map_of t ''skip_frames'' of None \<Rightarrow> PInt 5 | Some x \<Rightarrow> x,
             case map_of t ''frame_delay'' of None \<Rightarrow> PFloat (1 / 2) | Some y \<Rightarrow> y))"
  by (auto simp: load_animation_config_def anim_settings_def)

text \<open>
  An unreadable file, a config without \<open>animations\<close>, one without \<open>Truck\<close>, and one
  that gives \<open>Truck\<close> a delay only.
\<close>

theorem load_config_behaviour_witness:
  "OSError \<noteq> FileNotFoundError \<and> load_animation_config (Inl OSError) = Inl OSError \<and>
   anim_settings (PDict []) ''Truck'' = Inr (PInt 5, PFloat (1 / 2)) \<and>
   anim_settings (PDict [(''animations'', PDict [])]) ''Truck'' = Inr (PInt 5, PFloat (1 / 2)) \<and>
   anim_settings (PDict [(''animations'', PDict [(''Truck'', PDict [(''frame_delay'', PFloat (1 / 4))])])])
     ''Truck'' = Inr (PInt 5, PFloat (1 / 4))"
proof -
  have 1: "load_animation_config (Inl OSError) = Inl OSError"
    using load_config_behaviour [of PNone OSError "[]" "''Truck''" "[]" "[]"] by simp
  have 2: "anim_settings (PDict []) ''Truck'' = Inr (PInt 5, PFloat (1 / 2))"
    using load_config_behaviour [of PNone OSError "[]" "''Truck''" "[]" "[]"] by simp
  have 3: "anim_settings (PDict [(''animations'', PDict [])]) ''Truck'' = Inr (PInt 5, PFloat (1 / 2))"
    using load_config_behaviour [of PNone OSError "[(''animations'', PDict [])]" "''Truck''" "[]" "[]"]
    by simp
  have 4: "anim_settings (PDict [(''animations'', PDict [(''Truck'', PDict [(''frame_delay'', PFloat (1 / 4))])])])
     ''Truck'' = Inr (PInt 5, PFloat (1 / 4))"
    using load_config_behaviour [of PNone OSError
        "[(''animations'', PDict [(''Truck'', PDict [(''frame_delay'', PFloat (1 / 4))])])]" "''Truck''"
        "[(''Truck'', PDict [(''frame_delay'', PFloat (1 / 4))])]" "[(''frame_delay'', PFloat (1 / 4))]"]
    by simp
  from 1 2 3 4 show ?thesis by simp
qed

text \<open>C3 as stated fails: corrupt contents raise, the default is not returned.\<close>

theorem load_config_counterexample:
  "load_animation_config (Inl JSONDecodeError) = Inl JSONDecodeError \<and>
   load_animation_config (Inl JSONDecodeError) \<noteq> Inr default_config"
  by (simp add: load_animation_config_def)

section \<open>The menu state machine\<close>

lemma builtin_have_keys: "m \<in> set builtin_menus \<Longrightarrow> map_of valorant_menu_keys m \<noteq> None"
  by (auto simp: builtin_menus_def valorant_menu_keys_def)

lemma select_pending: "selection_pending s \<Longrightarrow> select_option s n = Inr (s, [])"
  by (simp add: select_option_def)

lemma select_all_pending: "selection_pending s \<Longrightarrow> select_all s ns = Inr (s, [])"
  by (induction ns) (simp_all add: select_pending)

lemma select_terminal:
  assumes "visible s" and "current_menu s \<noteq> ''main''" and "\<not> selection_pending s"
    and "1 \<le> n" and "n \<le> int (length (options s))"
  shows "\<exists>acts. select_option s n = Inr (s\<lparr>selection_pending := True\<rparr>, acts) \<and>
           length (filter is_dispatch acts) = 1"
  using assms builtin_have_keys [of "current_menu s"]
  by (auto simp: select_option_def getitem_def Let_def is_dispatch_def)

lemma select_sub_cases:
  assumes "visible s" and "current_menu s \<noteq> ''main''" and "select_option s n = Inr (s', acts)"
  shows "(s' = s \<and> acts = []) \<or>
         (s' = s\<lparr>selection_pending := True\<rparr> \<and> length (filter is_dispatch acts) = 1)"
  using assms
  by (auto simp: select_option_def Let_def is_dispatch_def
      split: if_splits sum.splits option.splits)

lemma at_most_one_dispatch:
  "visible s \<Longrightarrow> current_menu s \<noteq> ''main'' \<Longrightarrow> select_all s ns = Inr (s', acts) \<Longrightarrow>
   length (filter is_dispatch acts) \<le> 1"
proof (induction ns arbitrary: s s' acts)
  case Nil
  then show ?case by simp
next
  case (Cons n ns)
  from Cons.prems(3) obtain s1 a1 a2 where 1: "select_option s n = Inr (s1, a1)"
    and 2: "select_all s1 ns = Inr (s', a2)" and 3: "acts = a1 @ a2"
    by (auto split: sum.splits)
  from select_sub_cases [OF Cons.prems(1,2) 1] show ?case
  proof
    assume "s1 = s \<and> a1 = []"
    then show ?thesis using Cons.IH [OF Cons.prems(1,2), of s' a2] 2 3 by simp
  next
    assume b: "s1 = s\<lparr>selection_pending := True\<rparr> \<and> length (filter is_dispatch a1) = 1"
    then have "selection_pending s1" by simp
    then have "select_all s1 ns = Inr (s1, [])" by (rule select_all_pending)
    with 2 have "a2 = []" by simp
    with b 3 show ?thesis by simp
  qed
qed

text \<open>
  C7. At a visible submenu with the lock clear, a selection \<open>n\<close> within the options
  sets \<open>selection_pending\<close> and dispatches exactly one action. Any selection \<open>m\<close>
  after it changes nothing and dispatches nothing, so the two together dispatch the one
  action; and no run of selections at a visible submenu dispatches more than one.
\<close>

theorem selection_lock:
  assumes "visible s" and "current_menu s \<noteq> ''main''" and "\<not> selection_pending s"
    and "1 \<le> n" and "n \<le> int (length (options s))"
  shows "\<exists>acts. select_option s n = Inr (s\<lparr>selection_pending := True\<rparr>, acts) \<and>
           length (filter is_dispatch acts) = 1 \<and>
           select_option (s\<lparr>selection_pending := True\<rparr>) m =
             Inr (s\<lparr>selection_pending := True\<rparr>, []) \<and>
           select_all s [n, m] = Inr (s\<lparr>selection_pending := True\<rparr>, acts) \<and>
           (\<forall>ns s' acts'. select_all s ns = Inr (s', acts') \<longrightarrow>
              length (filter is_dispatch acts') \<le> 1)"
proof -
  from select_terminal [OF assms] obtain acts
    where 1: "select_option s n = Inr (s\<lparr>selection_pending := True\<rparr>, acts)"
      and 2: "length (filter is_dispatch acts) = 1" by blast
  have 3: "select_option (s\<lparr>selection_pending := True\<rparr>) m = Inr (s\<lparr>selection_pending := True\<rparr>, [])"
    by (rule select_pending) simp
  have 4: "select_all s [n, m] = Inr (s\<lparr>selection_pending := True\<rparr>, acts)"
    by (simp add: 1 3)
  have 5: "\<forall>ns s' acts'. select_all s ns = Inr (s', acts') \<longrightarrow>
              length (filter is_dispatch acts') \<le> 1"
    using at_most_one_dispatch [OF assms(1,2)] by blast
  from 1 2 3 4 5 show ?thesis by blast
qed

text \<open>
  The Combat submenu is what \<open>Select(3)\<close> shows from the root; there \<open>Select(1)\<close>
  followed by \<open>Select(2)\<close> triggers the one voice line.
\<close>

theorem selection_lock_witness:
  "select_option (toggle_visibility init_menu) 3 = Inr (combat_menu, []) \<and>
   visible combat_menu \<and> current_menu combat_menu \<noteq> ''main'' \<and>
   \<not> selection_pending combat_menu \<and> (1::int) \<le> 1 \<and>
   1 \<le> int (length (options combat_menu)) \<and>
   select_all combat_menu [1, 2] =
     Inr (combat_menu\<lparr>selection_pending := True\<rparr>, [TriggerVoiceline 1 1, SingleShotHide 500]) \<and>
   (\<exists>acts. select_all combat_menu [1, 2] = Inr (combat_menu\<lparr>selection_pending := True\<rparr>, acts) \<and>
      length (filter is_dispatch acts) = 1)"
proof -
  have r: "select_option (toggle_visibility init_menu) 3 = Inr (combat_menu, [])"
    by (simp add: toggle_visibility_def init_menu_def select_option_def getitem_def
        main_options_def submenus_def combat_menu_def)
  have h1: "visible combat_menu" by (simp add: combat_menu_def)
  have h2: "current_menu combat_menu \<noteq> ''main''" by (simp add: combat_menu_def)
  have h3: "\<not> selection_pending combat_menu" by (simp add: combat_menu_def)
  have h4: "(1::int) \<le> 1" by simp
  have h5: "1 \<le> int (length (options combat_menu))" by (simp add: combat_menu_def)
  have e: "select_all combat_menu [1, 2] =
     Inr (combat_menu\<lparr>selection_pending := True\<rparr>, [TriggerVoiceline 1 1, SingleShotHide 500])"
    by (simp add: combat_menu_def select_option_def getitem_def builtin_menus_def
        valorant_menu_keys_def)
  from selection_lock [OF h1 h2 h3 h4 h5, of 2]
  have c: "\<exists>acts. select_all combat_menu [1, 2] = Inr (combat_menu\<lparr>selection_pending := True\<rparr>, acts) \<and>
      length (filter is_dispatch acts) = 1" by blast
  from r h1 h2 h3 h4 h5 e c show ?thesis by blast
qed

text \<open>
  C4, as the code has it. \<open>Back\<close> at a submenu returns to the root and leaves
  \<open>selection_pending\<close> as it was: \<open>go_back\<close> does not write the lock (only the show
  transition of \<open>Toggle\<close> clears it). \<open>Back\<close> at the root hides the overlay, as
  \<open>Toggle\<close> does there.
\<close>

theorem back_transitions:
  "(nav_state s = AtSubmenu node idx \<longrightarrow>
      nav_state (handle_back s) = AtRoot \<and>
      selection_pending (handle_back s) = selection_pending s) \<and>
   (nav_state s = AtRoot \<longrightarrow>
      handle_back s = hide s \<and> toggle_visibility s = hide s \<and>
      nav_state (handle_back s) = Hidden)"
  by (auto simp: nav_state_def handle_back_def go_back_def toggle_visibility_def hide_def
      split: if_splits)

theorem back_transitions_witness:
  "nav_state combat_menu = AtSubmenu ''Combat'' 3 \<and>
   nav_state (handle_back combat_menu) = AtRoot \<and>
   selection_pending (handle_back combat_menu) = selection_pending combat_menu \<and>
   nav_state (toggle_visibility init_menu) = AtRoot \<and>
   handle_back (toggle_visibility init_menu) = hide (toggle_visibility init_menu) \<and>
   nav_state (handle_back (toggle_visibility init_menu)) = Hidden"
proof -
  have a: "nav_state combat_menu = AtSubmenu ''Combat'' 3"
    by (simp add: nav_state_def combat_menu_def)
  have b: "nav_state (toggle_visibility init_menu) = AtRoot"
    by (simp add: nav_state_def toggle_visibility_def init_menu_def)
  from back_transitions [of combat_menu "''Combat''" 3] a
  have 1: "nav_state (handle_back combat_menu) = AtRoot \<and>
      selection_pending (handle_back combat_menu) = selection_pending combat_menu" by blast
  from back_transitions [of "toggle_visibility init_menu" "''Combat''" 3] b
  have 2: "handle_back (toggle_visibility init_menu) = hide (toggle_visibility init_menu) \<and>
      nav_state (handle_back (toggle_visibility init_menu)) = Hidden" by blast
  from a b 1 2 show ?thesis by blast
qed

text \<open>
  C4 as stated fails: after \<open>Select(1)\<close>, \<open>Select(1)\<close> from the root the overlay is at
  the Rocket League submenu with the lock set, and \<open>Back\<close> returns to the root with the
  lock still set.
\<close>

theorem back_keeps_lock_counterexample:
  "select_all (toggle_visibility init_menu) [1, 1] =
     Inr (rocket_pending, [TypeInChat ''What a save!'', SingleShotHide 50]) \<and>
   nav_state rocket_pending = AtSubmenu ''Rocket League'' 1 \<and>
   nav_state (handle_back rocket_pending) = AtRoot \<and>
   selection_pending (handle_back rocket_pending)"
  by (simp add: toggle_visibility_def init_menu_def select_option_def getitem_def
      main_options_def submenus_def builtin_menus_def animation_menus_def rocket_pending_def
      nav_state_def handle_back_def go_back_def)

text \<open>
  C10, as the code has it. Every option of the main menu is a key of the submenu table,
  and there are six. So at the root, with \<open>selection_pending\<close> clear, \<open>Select(n)\<close> for
  \<open>1 \<le> n \<le> 6\<close> navigates to the submenu the option names and records \<open>n\<close> as the
  origin index: the branch for an option without a submenu is not taken.
\<close>

theorem main_options_resolve:
  assumes "nav_state s = AtRoot" and "\<not> selection_pending s" and "options s = main_options"
    and "1 \<le> n" and "n \<le> 6"
  shows "set main_options \<subseteq> fst ` set submenus \<and> length main_options = 6 \<and>
     (\<exists>opts. map_of submenus (main_options ! nat (n - 1)) = Some opts \<and>
        select_option s n =
          Inr (s\<lparr>main_menu_index := n, current_menu := main_options ! nat (n - 1),
                 options := opts\<rparr>, []) \<and>
        nav_state (s\<lparr>main_menu_index := n, current_menu := main_options ! nat (n - 1),
                     options := opts\<rparr>) = AtSubmenu (main_options ! nat (n - 1)) n)"
proof -
  from assms(1) have v: "visible s" and m: "current_menu s = ''main''"
    by (auto simp: nav_state_def split: if_splits)
  have t: "set main_options \<subseteq> fst ` set submenus" "length main_options = 6"
    by (simp_all add: main_options_def submenus_def)
  from assms(4,5) have "n = 1 \<or> n = 2 \<or> n = 3 \<or> n = 4 \<or> n = 5 \<or> n = 6" by arith
  then have "\<exists>opts. map_of submenus (main_options ! nat (n - 1)) = Some opts \<and>
        select_option s n =
          Inr (s\<lparr>main_menu_index := n, current_menu := main_options ! nat (n - 1),
                 options := opts\<rparr>, []) \<and>
        nav_state (s\<lparr>main_menu_index := n, current_menu := main_options ! nat (n - 1),
                     options := opts\<rparr>) = AtSubmenu (main_options ! nat (n - 1)) n"
    using v m assms(2,3)
    by (elim disjE)
      (simp_all add: select_option_def getitem_def main_options_def submenus_def nav_state_def)
  with t show ?thesis by blast
qed

text \<open>From the root, \<open>Select(2)\<close> opens the Animations submenu with origin index 2.\<close>

theorem main_options_resolve_witness:
  "nav_state (toggle_visibility init_menu) = AtRoot \<and>
   \<not> selection_pending (toggle_visibility init_menu) \<and>
   options (toggle_visibility init_menu) = main_options \<and> (1::int) \<le> 2 \<and> (2::int) \<le> 6 \<and>
   (\<exists>opts. select_option (toggle_visibility init_menu) 2 =
       Inr ((toggle_visibility init_menu)\<lparr>main_menu_index := 2,
              current_menu := main_options ! nat (2 - 1), options := opts\<rparr>, []) \<and>
      nav_state ((toggle_visibility init_menu)\<lparr>main_menu_index := 2,
              current_menu := main_options ! nat (2 - 1), options := opts\<rparr>) =
        AtSubmenu (main_options ! nat (2 - 1)) 2)"
proof -
  have h1: "nav_state (toggle_visibility init_menu) = AtRoot"
    by (simp add: nav_state_def toggle_visibility_def init_menu_def)
  have h2: "\<not> selection_pending (toggle_visibility init_menu)"
    by (simp add: toggle_visibility_def init_menu_def)
  have h3: "options (toggle_visibility init_menu) = main_options"
    by (simp add: toggle_visibility_def init_menu_def)
  have h4: "(1::int) \<le> 2" and h5: "(2::int) \<le> 6" by simp_all
  from main_options_resolve [OF h1 h2 h3 h4 h5] h1 h2 h3 h4 h5 show ?thesis by blast
qed

text \<open>
  C10 as stated fails: \<open>Select(n)\<close> from the root does not always navigate. After
  \<open>Select(3)\<close>, \<open>Select(1)\<close> from the root and \<open>Back\<close> before the hide timer fires,
  the overlay is visible at the root with \<open>selection_pending\<close> still set, and there
  \<open>Select(1)\<close> changes nothing.
\<close>

theorem locked_root_counterexample:
  "select_all (toggle_visibility init_menu) [3, 1] =
     Inr (combat_menu\<lparr>selection_pending := True\<rparr>,
          [TriggerVoiceline 1 1, SingleShotHide 500]) \<and>
   nav_state (handle_back (combat_menu\<lparr>selection_pending := True\<rparr>)) = AtRoot \<and>
   options (handle_back (combat_menu\<lparr>selection_pending := True\<rparr>)) = main_options \<and>
   select_option (handle_back (combat_menu\<lparr>selection_pending := True\<rparr>)) 1 =
     Inr (handle_back (combat_menu\<lparr>selection_pending := True\<rparr>), [])"
  by (simp add: toggle_visibility_def init_menu_def select_option_def getitem_def
      main_options_def submenus_def builtin_menus_def valorant_menu_keys_def combat_menu_def
      nav_state_def handle_back_def go_back_def)

end
